theory Spec2Isabelle
  imports Main "HOL-Library.Sublist"
begin

section \<open>Session manager: the \<open>useRealtimeTutor\<close> hook\<close>

text \<open>
  The hook keeps three pieces of React state (\<open>state\<close>, \<open>isConnected\<close>, \<open>transcript\<close>)
  and three refs (\<open>pcRef\<close>, \<open>dcRef\<close>, \<open>audioRef\<close>). Every operation is modelled as a
  function from the hook's configuration to the next one; \<open>setState\<close> and friends are
  assignments. Calls that leave the hook (\<open>dc.send\<close>, \<open>dc.close\<close>, \<open>pc.close\<close>, the
  optional \<open>onError\<close> callback) are recorded in the configuration, in program order.
\<close>

datatype TutorState = Idle | Listening | Thinking | Speaking

text \<open>The values handed to \<open>JSON.stringify\<close> before \<open>dc.send\<close>; key order as written.\<close>

datatype json = JString string | JArray "json list" | JObject "(string \<times> json) list"

datatype ready_state = RS_connecting | RS_open | RS_closing | RS_closed

record data_channel =
  readyState :: ready_state
  sent :: "json list"

type_synonym peer_connection = nat

type_synonym media_stream = nat

record audio_element =
  autoplay :: bool
  srcObject :: "media_stream option"

datatype browser_call = DC_close data_channel | PC_close peer_connection

record hook =
  state :: TutorState
  isConnected :: bool
  transcript :: string
  pcRef :: "peer_connection option"
  dcRef :: "data_channel option"
  audioRef :: "audio_element option"
  onError :: bool
  onError_calls :: "string list"
  closes :: "browser_call list"

text \<open>
  \<open>onError\<close> says whether the caller passed the optional callback; \<open>onError_calls\<close> lists
  the arguments of its invocations. \<open>onError?.(m)\<close> is a call only when it was passed.
\<close>

definition call_onError :: "string \<Rightarrow> hook \<Rightarrow> hook" where
  "call_onError m h =
     (if onError h then h\<lparr>onError_calls := onError_calls h @ [m]\<rparr> else h)"

definition disconnect :: "hook \<Rightarrow> hook" where
  "disconnect h =
     (let h1 = (case dcRef h of
                  Some dc \<Rightarrow> h\<lparr>closes := closes h @ [DC_close dc], dcRef := None\<rparr>
                | None \<Rightarrow> h);
          h2 = (case pcRef h1 of
                  Some pc \<Rightarrow> h1\<lparr>closes := closes h1 @ [PC_close pc], pcRef := None\<rparr>
                | None \<Rightarrow> h1);
          h3 = (case audioRef h2 of
                  Some a \<Rightarrow> h2\<lparr>audioRef := Some (a\<lparr>srcObject := None\<rparr>)\<rparr>
                | None \<Rightarrow> h2)
      in h3\<lparr>isConnected := False, state := Idle\<rparr>)"

text \<open>An inbound event after \<open>JSON.parse\<close>: its \<open>type\<close>, and the two payloads the handler reads.\<close>

record error_payload =
  message :: "string option"

record server_event =
  event_type :: string
  delta :: "string option"
  error :: "error_payload option"

text \<open>\<open>event.error?.message ?? 'An error occurred'\<close>\<close>

definition error_message :: "server_event \<Rightarrow> string" where
  "error_message e =
     (case error e of
        None \<Rightarrow> ''An error occurred''
      | Some p \<Rightarrow> (case message p of None \<Rightarrow> ''An error occurred'' | Some m \<Rightarrow> m))"

definition handleServerEvent :: "server_event \<Rightarrow> hook \<Rightarrow> hook" where
  "handleServerEvent e h =
     (let t = event_type e in
      if t = ''session.created'' \<or> t = ''session.updated'' then h\<lparr>state := Listening\<rparr>
      else if t = ''input_audio_buffer.speech_started'' then h\<lparr>state := Listening\<rparr>
      else if t = ''response.created'' then h\<lparr>state := Thinking, transcript := []\<rparr>
      else if t = ''response.output_audio_transcript.delta'' then
        h\<lparr>transcript := transcript h @ (case delta e of None \<Rightarrow> [] | Some d \<Rightarrow> d)\<rparr>
      else if t = ''response.output_audio.delta'' then h\<lparr>state := Speaking\<rparr>
      else if t = ''response.done'' \<or> t = ''response.output_audio.done'' then
        h\<lparr>state := Listening\<rparr>
      else if t = ''response.cancelled'' then h\<lparr>state := Listening\<rparr>
      else if t = ''error'' then (call_onError (error_message e) h)\<lparr>state := Idle\<rparr>
      else h)"

text \<open>
  The listeners \<open>connect\<close> installs on the data channel. A message whose \<open>JSON.parse\<close>
  throws (\<open>None\<close>) is ignored.
\<close>

definition on_message :: "server_event option \<Rightarrow> hook \<Rightarrow> hook" where
  "on_message parsed h = (case parsed of None \<Rightarrow> h | Some e \<Rightarrow> handleServerEvent e h)"

definition on_open :: "hook \<Rightarrow> hook" where
  "on_open h = h\<lparr>isConnected := True, state := Listening\<rparr>"

definition on_close :: "hook \<Rightarrow> hook" where
  "on_close h = disconnect h"

subsection \<open>Outbound frames\<close>

definition conversation_item_create :: "json list \<Rightarrow> json" where
  "conversation_item_create content =
     JObject [(''type'', JString ''conversation.item.create''),
              (''item'', JObject [(''type'', JString ''message''),
                                  (''role'', JString ''user''),
                                  (''content'', JArray content)])]"

definition response_create :: json where
  "response_create = JObject [(''type'', JString ''response.create'')]"

definition input_text :: "string \<Rightarrow> json" where
  "input_text text = JObject [(''type'', JString ''input_text''), (''text'', JString text)]"

definition input_image :: "string \<Rightarrow> json" where
  "input_image url = JObject [(''type'', JString ''input_image''), (''image_url'', JString url)]"

text \<open>\<open>s.replace(pat, rep)\<close> with a string pattern: the first occurrence only.\<close>

fun replace_first :: "string \<Rightarrow> string \<Rightarrow> string \<Rightarrow> string" where
  "replace_first pat rep [] = (if pat = [] then rep else [])"
| "replace_first pat rep (c # cs) =
     (if prefix pat (c # cs) then rep @ drop (length pat) (c # cs)
      else c # replace_first pat rep cs)"

definition image_data_url :: "string \<Rightarrow> string \<Rightarrow> string" where
  "image_data_url base64Data mimeType =
     (let format = replace_first ''image/'' [] mimeType
      in ''data:image/'' @ format @ '';base64,'' @ base64Data)"

text \<open>
  \<open>dc.send\<close> on an open channel enqueues the frame behind those already sent. The send
  operations call it only behind their guard on \<open>readyState\<close>; the browser's limit on the
  size of a message is outside the model.
\<close>

definition dc_send :: "json \<Rightarrow> data_channel \<Rightarrow> data_channel" where
  "dc_send frame dc = dc\<lparr>sent := sent dc @ [frame]\<rparr>"

text \<open>
  Each send operation reads \<open>dcRef.current\<close>, returns at once unless the channel is
  there and open, and otherwise sends two frames and sets the state.
\<close>

definition sendText :: "string \<Rightarrow> hook \<Rightarrow> hook" where
  "sendText text h =
     (case dcRef h of
        None \<Rightarrow> h
      | Some dc \<Rightarrow>
          if readyState dc \<noteq> RS_open then h
          else
            let dc1 = dc_send (conversation_item_create [input_text text]) dc;
                dc2 = dc_send response_create dc1
            in h\<lparr>dcRef := Some dc2, state := Thinking\<rparr>)"

definition sendImage :: "string \<Rightarrow> string \<Rightarrow> hook \<Rightarrow> hook" where
  "sendImage base64Data mimeType h =
     (case dcRef h of
        None \<Rightarrow> h
      | Some dc \<Rightarrow>
          if readyState dc \<noteq> RS_open then h
          else
            let dc1 = dc_send (conversation_item_create
                                 [input_image (image_data_url base64Data mimeType)]) dc;
                dc2 = dc_send response_create dc1
            in h\<lparr>dcRef := Some dc2, state := Thinking\<rparr>)"

definition sendTextWithImage :: "string \<Rightarrow> string \<Rightarrow> string \<Rightarrow> hook \<Rightarrow> hook" where
  "sendTextWithImage text base64Data mimeType h =
     (case dcRef h of
        None \<Rightarrow> h
      | Some dc \<Rightarrow>
          if readyState dc \<noteq> RS_open then h
          else
            let dc1 = dc_send (conversation_item_create
                                 [input_text text,
                                  input_image (image_data_url base64Data mimeType)]) dc;
                dc2 = dc_send response_create dc1
            in h\<lparr>dcRef := Some dc2, state := Thinking\<rparr>)"

text \<open>The \<open>type\<close> field of a frame.\<close>

definition frame_type :: "json \<Rightarrow> string option" where
  "frame_type f =
     (case f of
        JObject kvs \<Rightarrow> (case map_of kvs ''type'' of Some (JString t) \<Rightarrow> Some t | _ \<Rightarrow> None)
      | _ \<Rightarrow> None)"

subsection \<open>Two configurations of the hook\<close>

text \<open>
  A session as it stands after \<open>connect\<close> and the channel's \<open>open\<close> event, with a
  transcript left from an earlier response; and the hook before any \<open>connect\<close>.
\<close>

definition open_channel :: data_channel where
  "open_channel = \<lparr>readyState = RS_open, sent = []\<rparr>"

definition live_session :: hook where
  "live_session =
     \<lparr>state = Listening, isConnected = True, transcript = ''Earlier answer'',
      pcRef = Some 0, dcRef = Some open_channel,
      audioRef = Some \<lparr>autoplay = True, srcObject = Some 0\<rparr>,
      onError = True, onError_calls = [], closes = []\<rparr>"

definition initial_hook :: hook where
  "initial_hook =
     \<lparr>state = Idle, isConnected = False, transcript = [],
      pcRef = None, dcRef = None, audioRef = None,
      onError = True, onError_calls = [], closes = []\<rparr>"

section \<open>Token minter: \<open>POST /api/realtime/token\<close>\<close>

text \<open>
  The route reads \<open>OPENAI_API_KEY\<close> and, when it is set, makes one \<open>fetch\<close>. The inputs
  of the model are the environment variable and what that \<open>fetch\<close> does: it rejects, or
  it resolves to a response with a status, the outcome of \<open>response.text()\<close> (the body,
  or \<open>None\<close> when reading it fails) and the outcome of \<open>response.json()\<close> (which throws,
  or gives an object whose \<open>value\<close> may be missing). Whatever throws inside the \<open>try\<close>
  block ends in the \<open>catch\<close> clause. The \<open>console.error\<close> calls are not modelled.
\<close>

datatype json_outcome = Json_throws | Json_object "string option"

record upstream_response =
  status :: nat
  body_text :: "string option"
  body_json :: json_outcome

datatype fetch_outcome = Fetch_rejects | Fetch_resolves upstream_response

text \<open>\<open>response.ok\<close>: the status is in the range 200 to 299.\<close>

definition ok :: "upstream_response \<Rightarrow> bool" where
  "ok r = (200 \<le> status r \<and> status r \<le> 299)"

text \<open>\<open>!x\<close> on an optional string: undefined and the empty string are falsy.\<close>

definition falsy :: "string option \<Rightarrow> bool" where
  "falsy x = (case x of None \<Rightarrow> True | Some v \<Rightarrow> v = [])"

datatype response_payload = Value_payload string | Error_payload string "string option"

record next_response =
  resp_status :: nat
  resp_payload :: response_payload

text \<open>
  \<open>NextResponse.json(body, init)\<close> builds a response that has a body. It throws where the
  Fetch standard refuses such a response: a \<open>RangeError\<close> for a status outside 200 to
  599, a \<open>TypeError\<close> for a null-body status (101, 103, 204, 205, 304). \<open>None\<close> is the
  throw. Without \<open>init.status\<close> the status is 200.
\<close>

definition null_body_status :: "nat \<Rightarrow> bool" where
  "null_body_status s = (s \<in> set [101, 103, 204, 205, 304])"

definition NextResponse_json :: "response_payload \<Rightarrow> nat \<Rightarrow> next_response option" where
  "NextResponse_json payload s =
     (if s < 200 \<or> 599 < s \<or> null_body_status s then None
      else Some \<lparr>resp_status = s, resp_payload = payload\<rparr>)"

text \<open>
  The body of the \<open>try\<close> block: \<open>None\<close> when something in it throws (the \<open>fetch\<close>,
  reading the body, or \<open>NextResponse.json\<close>), otherwise the response it returns.
  \<open>!data.value\<close> holds for a missing \<open>value\<close> and for the empty string.
\<close>

definition try_block :: "fetch_outcome \<Rightarrow> next_response option" where
  "try_block upstream =
     (case upstream of
        Fetch_rejects \<Rightarrow> None
      | Fetch_resolves response \<Rightarrow>
          if \<not> ok response then
            (case body_text response of
               None \<Rightarrow> None
             | Some err \<Rightarrow>
                 NextResponse_json (Error_payload ''Failed to create token'' (Some err))
                   (status response))
          else
            (case body_json response of
               Json_throws \<Rightarrow> None
             | Json_object None \<Rightarrow>
                 NextResponse_json (Error_payload ''No token in response'' None) 500
             | Json_object (Some v) \<Rightarrow>
                 if falsy (Some v) then
                   NextResponse_json (Error_payload ''No token in response'' None) 500
                 else NextResponse_json (Value_payload v) 200))"

text \<open>
  The route: the check of the key, then the \<open>try\<close> block with its \<open>catch\<close> clause,
  which answers whatever was thrown. \<open>None\<close> would be an exception that leaves the
  handler.
\<close>

definition POST :: "string option \<Rightarrow> fetch_outcome \<Rightarrow> next_response option" where
  "POST apiKey upstream =
     (if falsy apiKey then
        NextResponse_json (Error_payload ''OPENAI_API_KEY is not configured'' None) 500
      else
        case try_block upstream of
          Some r \<Rightarrow> Some r
        | None \<Rightarrow> NextResponse_json (Error_payload ''Failed to create token'' None) 500)"

section \<open>Notation converter: \<open>mathParser\<close>\<close>

text \<open>
  Strings are lists of 8-bit characters, so the model covers JavaScript strings whose
  code units are below 256. \<open>\w\<close> is \<open>[A-Za-z0-9_]\<close>, \<open>\d\<close> is \<open>[0-9]\<close>, and
  \<open>trim\<close> removes the white space and line terminators of that range.
\<close>

definition is_digit :: "char \<Rightarrow> bool" where
  "is_digit c = (c \<in> set ''0123456789'')"

definition is_letter :: "char \<Rightarrow> bool" where
  "is_letter c =
     (c \<in> set ''abcdefghijklmnopqrstuvwxyz'' \<or> c \<in> set ''ABCDEFGHIJKLMNOPQRSTUVWXYZ'')"

definition is_word :: "char \<Rightarrow> bool" where
  "is_word c = (is_letter c \<or> is_digit c \<or> c = CHR ''_'')"

definition is_space :: "char \<Rightarrow> bool" where
  "is_space c =
     (c \<in> set [CHR 0x09, CHR 0x0A, CHR 0x0B, CHR 0x0C, CHR 0x0D, CHR 0x20, CHR 0xA0])"

definition trim :: "string \<Rightarrow> string" where
  "trim s = rev (dropWhile is_space (rev (dropWhile is_space s)))"

definition backslash :: char where
  "backslash = CHR 0x5C"

text \<open>\<open>s.slice(i, -j)\<close>: from index \<open>i\<close> up to \<open>j\<close> before the end, empty when they cross.\<close>

definition slice :: "string \<Rightarrow> nat \<Rightarrow> nat \<Rightarrow> string" where
  "slice s i j = take (length s - j - i) (drop i s)"

text \<open>
  \<open>s.replace(/^p|q$/g, '')\<close> for literal \<open>p\<close> and \<open>q\<close>: the match at the start is
  found at index 0 and removed, then the scan goes on behind it and removes \<open>q\<close> where
  it ends the string.
\<close>

definition strip_ends :: "string \<Rightarrow> string \<Rightarrow> string \<Rightarrow> string" where
  "strip_ends p q s =
     (let s1 = (if prefix p s then drop (length p) s else s)
      in if suffix q s1 then take (length s1 - length q) s1 else s1)"

text \<open>
  The group \<open>(\d+|\w+)\<close> at the head of a string. It ends the pattern, so the first
  alternative that matches, taken greedily, stands: digits if there is one, else a word.
\<close>

definition match_exponent :: "string \<Rightarrow> string option" where
  "match_exponent s =
     (let d = takeWhile is_digit s in
      if d \<noteq> [] then Some d
      else let w = takeWhile is_word s in if w \<noteq> [] then Some w else None)"

text \<open>
  \<open>(\w+)\<close> is greedy and backtracks: it is tried with \<open>n\<close> characters, from the longest run
  of word characters down to one, until the separator and the group follow.
\<close>

fun try_base :: "char \<Rightarrow> string \<Rightarrow> nat \<Rightarrow> (string \<times> string) option" where
  "try_base sep s 0 = None"
| "try_base sep s (Suc n) =
     (case drop (Suc n) s of
        [] \<Rightarrow> try_base sep s n
      | c # r \<Rightarrow>
          if c = sep then
            (case match_exponent r of
               Some e \<Rightarrow> Some (take (Suc n) s, e)
             | None \<Rightarrow> try_base sep s n)
          else try_base sep s n)"

text \<open>A match of \<open>(\w+)sep(\d+|\w+)\<close> that starts at the head of the string.\<close>

definition match_at :: "char \<Rightarrow> string \<Rightarrow> (string \<times> string) option" where
  "match_at sep s = try_base sep s (length (takeWhile is_word s))"

text \<open>
  \<open>s.replace(/(\w+)sep(\d+|\w+)/g, (match, base, exp) => `${base}sep{${exp}}`)\<close>.
  The scan tries every index from \<open>lastIndex\<close> on; \<open>skip\<close> counts the characters left
  before \<open>lastIndex\<close>, those of a match already replaced. Both branches of the callback
  return the same string.
\<close>

fun replace_script :: "char \<Rightarrow> nat \<Rightarrow> string \<Rightarrow> string" where
  "replace_script sep skip [] = []"
| "replace_script sep (Suc skip) (c # cs) = replace_script sep skip cs"
| "replace_script sep 0 (c # cs) =
     (case match_at sep (c # cs) of
        Some (base, e) \<Rightarrow>
          base @ [sep] @ ''{'' @ e @ ''}'' @ replace_script sep (length base + length e) cs
      | None \<Rightarrow> c # replace_script sep 0 cs)"

definition convertToLaTeX :: "string \<Rightarrow> string" where
  "convertToLaTeX input =
     (if trim input = [] then []
      else
        let trimmed = trim input;
            hasLaTeXDelimiters =
              (prefix ''$'' trimmed \<or> prefix [backslash, CHR ''(''] trimmed
               \<or> prefix [backslash, CHR ''[''] trimmed);
            processed =
              (if hasLaTeXDelimiters then
                 strip_ends [backslash, CHR ''[''] [backslash, CHR '']'']
                   (strip_ends [backslash, CHR ''(''] [backslash, CHR '')'']
                      (strip_ends ''$'' ''$'' trimmed))
               else trimmed);
            processed1 = replace_script (CHR ''^'') 0 processed;
            processed2 = replace_script (CHR ''_'') 0 processed1
        in ''$'' @ processed2 @ ''$'')"

definition stripLatexDelimiters :: "string \<Rightarrow> string" where
  "stripLatexDelimiters latex =
     (let trimmed = trim latex in
      if prefix ''$'' trimmed \<and> suffix ''$'' trimmed then trim (slice trimmed 1 1)
      else if prefix [backslash, CHR ''(''] trimmed \<and> suffix [backslash, CHR '')''] trimmed
        then trim (slice trimmed 2 2)
      else if prefix [backslash, CHR ''[''] trimmed \<and> suffix [backslash, CHR '']''] trimmed
        then trim (slice trimmed 2 2)
      else trimmed)"

definition containsMathNotation :: "string \<Rightarrow> bool" where
  "containsMathNotation input = (\<exists>c \<in> set input. c = CHR ''^'' \<or> c = CHR ''_'')"

subsection \<open>The words of the specification\<close>

text \<open>
  The specification speaks of input wrapped in a delimiter pair, of maximal runs of
  alphanumeric characters around \<open>^\<close> or \<open>_\<close>, and of the braced form of such a pattern.
\<close>

definition wrapped_in :: "string \<Rightarrow> string \<Rightarrow> string \<Rightarrow> bool" where
  "wrapped_in opening closing s =
     (prefix opening s \<and> suffix closing s \<and> length opening + length closing \<le> length s)"

definition is_alnum :: "char \<Rightarrow> bool" where
  "is_alnum c = (is_letter c \<or> is_digit c)"

definition alnum_run :: "string \<Rightarrow> bool" where
  "alnum_run s = (s \<noteq> [] \<and> list_all is_alnum s)"

definition braced :: "string \<Rightarrow> char \<Rightarrow> string \<Rightarrow> string" where
  "braced base sep e = base @ [sep] @ ''{'' @ e @ ''}''"

text \<open>
  A shorthand input that contains only single patterns is a sequence of scripts, each a
  piece of plain text (no \<open>^\<close>, no \<open>_\<close>) followed by \<open>base sep exponent\<close>, and a plain
  tail. Base and exponent are the maximal alphanumeric runs around the separator: the
  text before the base does not end with an alphanumeric character, and what follows the
  exponent does not start with one.
\<close>

type_synonym script = "string \<times> string \<times> char \<times> string"

fun shorthand :: "script list \<Rightarrow> string \<Rightarrow> string" where
  "shorthand [] tail = tail"
| "shorthand ((u, b, sep, e) # ps) tail = u @ b @ [sep] @ e @ shorthand ps tail"

fun braced_form :: "script list \<Rightarrow> string \<Rightarrow> string" where
  "braced_form [] tail = tail"
| "braced_form ((u, b, sep, e) # ps) tail = u @ braced b sep e @ braced_form ps tail"

definition plain :: "string \<Rightarrow> bool" where
  "plain u = list_all (\<lambda>c. c \<noteq> CHR ''^'' \<and> c \<noteq> CHR ''_'') u"

definition run_starts_after :: "string \<Rightarrow> bool" where
  "run_starts_after u = (u = [] \<or> \<not> is_alnum (last u))"

definition run_stops_before :: "string \<Rightarrow> bool" where
  "run_stops_before r = (r = [] \<or> \<not> is_alnum (hd r))"

fun single_patterns :: "script list \<Rightarrow> string \<Rightarrow> bool" where
  "single_patterns [] tail = plain tail"
| "single_patterns ((u, b, sep, e) # ps) tail =
     (plain u \<and> run_starts_after u \<and> alnum_run b
      \<and> (sep = CHR ''^'' \<or> sep = CHR ''_'') \<and> alnum_run e
      \<and> run_stops_before (shorthand ps tail) \<and> single_patterns ps tail)"

text \<open>
  Shorthand as the user types it: not empty, no white space around it, and not already
  inside delimiters.
\<close>

definition shorthand_input :: "string \<Rightarrow> bool" where
  "shorthand_input x =
     (x \<noteq> [] \<and> \<not> is_space (hd x) \<and> \<not> is_space (last x)
      \<and> \<not> prefix ''$'' x \<and> \<not> prefix [backslash, CHR ''(''] x
      \<and> \<not> prefix [backslash, CHR ''[''] x)"

text \<open>
  The exponents on which \<open>(\d+|\w+)\<close> takes the whole run: all digits, or not starting
  with a digit.
\<close>

definition whole_exponent :: "string \<Rightarrow> bool" where
  "whole_exponent e = (list_all is_digit e \<or> \<not> is_digit (hd e))"

definition whole_exponents :: "script list \<Rightarrow> bool" where
  "whole_exponents ps = list_all (\<lambda>(u, b, sep, e). whole_exponent e) ps"

subsection \<open>Between the two substitutions\<close>

text \<open>The input after the first of the two substitutions: only the \<open>^\<close> patterns are braced.\<close>

fun caret_form :: "script list \<Rightarrow> string \<Rightarrow> string" where
  "caret_form [] tail = tail"
| "caret_form ((u, b, sep, e) # ps) tail =
     u @ (if sep = CHR ''^'' then braced b sep e else b @ [sep] @ e) @ caret_form ps tail"

section \<open>Properties of the session manager\<close>

text \<open>
  C1. A send operation invoked while the channel is held and open enqueues exactly two
  frames behind those already sent, first the \<open>conversation.item.create\<close> frame that
  carries the message, then the \<open>response.create\<close> frame, and sets the state to
  \<open>thinking\<close> in the same step; no server event takes part. Nothing else changes.
  The message is one item of type \<open>message\<close> and role \<open>user\<close> whose content is the text
  part, the image part, or the text part followed by the image part; the image part
  holds the data URL made of the MIME type without its first \<open>image/\<close> and the base64
  payload. Both frames are written out in full.
\<close>

theorem send_enqueues_item_then_response:
  assumes "dcRef h = Some dc" and "readyState dc = RS_open"
  shows "sendText text h =
           h\<lparr>dcRef := Some (dc\<lparr>sent := sent dc @
              [JObject [(''type'', JString ''conversation.item.create''),
                        (''item'', JObject
                           [(''type'', JString ''message''),
                            (''role'', JString ''user''),
                            (''content'', JArray
                               [JObject [(''type'', JString ''input_text''),
                                         (''text'', JString text)]])])],
               JObject [(''type'', JString ''response.create'')]]\<rparr>),
             state := Thinking\<rparr>
       \<and> sendImage base64Data mimeType h =
           h\<lparr>dcRef := Some (dc\<lparr>sent := sent dc @
              [JObject [(''type'', JString ''conversation.item.create''),
                        (''item'', JObject
                           [(''type'', JString ''message''),
                            (''role'', JString ''user''),
                            (''content'', JArray
                               [JObject [(''type'', JString ''input_image''),
                                         (''image_url'', JString
                                            (''data:image/''
                                             @ replace_first ''image/'' [] mimeType
                                             @ '';base64,'' @ base64Data))]])])],
               JObject [(''type'', JString ''response.create'')]]\<rparr>),
             state := Thinking\<rparr>
       \<and> sendTextWithImage text base64Data mimeType h =
           h\<lparr>dcRef := Some (dc\<lparr>sent := sent dc @
              [JObject [(''type'', JString ''conversation.item.create''),
                        (''item'', JObject
                           [(''type'', JString ''message''),
                            (''role'', JString ''user''),
                            (''content'', JArray
                               [JObject [(''type'', JString ''input_text''),
                                         (''text'', JString text)],
                                JObject [(''type'', JString ''input_image''),
                                         (''image_url'', JString
                                            (''data:image/''
                                             @ replace_first ''image/'' [] mimeType
                                             @ '';base64,'' @ base64Data))]])])],
               JObject [(''type'', JString ''response.create'')]]\<rparr>),
             state := Thinking\<rparr>
       \<and> replace_first ''image/'' [] (''image/'' @ fmt) = fmt
       \<and> map frame_type (drop (length (sent dc)) (sent (the (dcRef (sendText text h)))))
           = [Some ''conversation.item.create'', Some ''response.create'']
       \<and> map frame_type
             (drop (length (sent dc)) (sent (the (dcRef (sendImage base64Data mimeType h)))))
           = [Some ''conversation.item.create'', Some ''response.create'']
       \<and> map frame_type
             (drop (length (sent dc))
                (sent (the (dcRef (sendTextWithImage text base64Data mimeType h)))))
           = [Some ''conversation.item.create'', Some ''response.create'']"
  using assms
  by (simp add: sendText_def sendImage_def sendTextWithImage_def dc_send_def Let_def
        frame_type_def conversation_item_create_def response_create_def input_text_def
        input_image_def image_data_url_def)

theorem send_enqueues_item_then_response_witness:
  "sent (the (dcRef (sendText ''2+2'' live_session))) =
     [JObject [(''type'', JString ''conversation.item.create''),
               (''item'', JObject
                  [(''type'', JString ''message''),
                   (''role'', JString ''user''),
                   (''content'', JArray
                      [JObject [(''type'', JString ''input_text''),
                                (''text'', JString ''2+2'')]])])],
      JObject [(''type'', JString ''response.create'')]]
   \<and> state (sendText ''2+2'' live_session) = Thinking
   \<and> sent (the (dcRef (sendImage ''AAAA'' ''image/png'' live_session))) =
     [JObject [(''type'', JString ''conversation.item.create''),
               (''item'', JObject
                  [(''type'', JString ''message''),
                   (''role'', JString ''user''),
                   (''content'', JArray
                      [JObject [(''type'', JString ''input_image''),
                                (''image_url'', JString ''data:image/png;base64,AAAA'')]])])],
      JObject [(''type'', JString ''response.create'')]]
   \<and> state (sendImage ''AAAA'' ''image/png'' live_session) = Thinking
   \<and> sent (the (dcRef (sendTextWithImage ''step 2'' ''AAAA'' ''image/png'' live_session))) =
     [JObject [(''type'', JString ''conversation.item.create''),
               (''item'', JObject
                  [(''type'', JString ''message''),
                   (''role'', JString ''user''),
                   (''content'', JArray
                      [JObject [(''type'', JString ''input_text''),
                                (''text'', JString ''step 2'')],
                       JObject [(''type'', JString ''input_image''),
                                (''image_url'', JString ''data:image/png;base64,AAAA'')]])])],
      JObject [(''type'', JString ''response.create'')]]
   \<and> state (sendTextWithImage ''step 2'' ''AAAA'' ''image/png'' live_session) = Thinking"
proof -
  have dc: "dcRef live_session = Some open_channel"
    by (simp add: live_session_def)
  have ro: "readyState open_channel = RS_open"
    by (simp add: open_channel_def)
  note sends = send_enqueues_item_then_response
    [OF dc ro, of _ _ "''image/png''" "''png''"]
  have png: "replace_first ''image/'' [] ''image/png'' = ''png''"
    using sends [THEN conjunct2, THEN conjunct2, THEN conjunct2, THEN conjunct1] by simp
  have a: "sendText ''2+2'' live_session =
           live_session\<lparr>dcRef := Some (open_channel\<lparr>sent := sent open_channel @
              [JObject [(''type'', JString ''conversation.item.create''),
                        (''item'', JObject
                           [(''type'', JString ''message''),
                            (''role'', JString ''user''),
                            (''content'', JArray
                               [JObject [(''type'', JString ''input_text''),
                                         (''text'', JString ''2+2'')]])])],
               JObject [(''type'', JString ''response.create'')]]\<rparr>),
             state := Thinking\<rparr>"
    using sends [of "''2+2''", THEN conjunct1] .
  have b: "sendImage ''AAAA'' ''image/png'' live_session =
           live_session\<lparr>dcRef := Some (open_channel\<lparr>sent := sent open_channel @
              [JObject [(''type'', JString ''conversation.item.create''),
                        (''item'', JObject
                           [(''type'', JString ''message''),
                            (''role'', JString ''user''),
                            (''content'', JArray
                               [JObject [(''type'', JString ''input_image''),
                                         (''image_url'', JString
                                            ''data:image/png;base64,AAAA'')]])])],
               JObject [(''type'', JString ''response.create'')]]\<rparr>),
             state := Thinking\<rparr>"
    using sends [of _ "''AAAA''", THEN conjunct2, THEN conjunct1] by (simp add: png)
  have c: "sendTextWithImage ''step 2'' ''AAAA'' ''image/png'' live_session =
           live_session\<lparr>dcRef := Some (open_channel\<lparr>sent := sent open_channel @
              [JObject [(''type'', JString ''conversation.item.create''),
                        (''item'', JObject
                           [(''type'', JString ''message''),
                            (''role'', JString ''user''),
                            (''content'', JArray
                               [JObject [(''type'', JString ''input_text''),
                                         (''text'', JString ''step 2'')],
                                JObject [(''type'', JString ''input_image''),
                                         (''image_url'', JString
                                            ''data:image/png;base64,AAAA'')]])])],
               JObject [(''type'', JString ''response.create'')]]\<rparr>),
             state := Thinking\<rparr>"
    using sends [of "''step 2''" "''AAAA''", THEN conjunct2, THEN conjunct2, THEN conjunct1]
    by (simp add: png)
  have e: "sent open_channel = []"
    by (simp add: open_channel_def)
  show ?thesis
    by (simp add: a b c e)
qed

text \<open>
  C2. An \<open>error\<close> event sets the state to \<open>idle\<close> from every configuration, and the
  error callback is invoked exactly once: with the event's message when there is one,
  with \<open>An error occurred\<close> when the event has no \<open>error\<close> or the error has no message.
\<close>

theorem error_event_idle_and_callback_once:
  assumes "event_type e = ''error''" and "onError h"
  shows "state (handleServerEvent e h) = Idle
       \<and> (\<forall>m. error e = Some \<lparr>message = Some m\<rparr> \<longrightarrow>
             onError_calls (handleServerEvent e h) = onError_calls h @ [m])
       \<and> (error e = None \<or> error e = Some \<lparr>message = None\<rparr> \<longrightarrow>
             onError_calls (handleServerEvent e h) = onError_calls h @ [''An error occurred''])"
  using assms
  by (auto simp add: handleServerEvent_def call_onError_def error_message_def)

theorem error_event_idle_and_callback_once_witness:
  "state (handleServerEvent
            \<lparr>event_type = ''error'', delta = None,
             error = Some \<lparr>message = Some ''Rate limit reached''\<rparr>\<rparr>
            (live_session\<lparr>state := Speaking\<rparr>)) = Idle
   \<and> onError_calls (handleServerEvent
            \<lparr>event_type = ''error'', delta = None,
             error = Some \<lparr>message = Some ''Rate limit reached''\<rparr>\<rparr>
            (live_session\<lparr>state := Speaking\<rparr>)) = [''Rate limit reached'']
   \<and> state (handleServerEvent \<lparr>event_type = ''error'', delta = None, error = None\<rparr>
            (live_session\<lparr>state := Thinking\<rparr>)) = Idle
   \<and> onError_calls (handleServerEvent \<lparr>event_type = ''error'', delta = None, error = None\<rparr>
            (live_session\<lparr>state := Thinking\<rparr>)) = [''An error occurred'']"
proof -
  have cb: "onError (live_session\<lparr>state := s\<rparr>)" for s
    by (simp add: live_session_def)
  have none: "onError_calls (live_session\<lparr>state := s\<rparr>) = []" for s
    by (simp add: live_session_def)
  show ?thesis
    using error_event_idle_and_callback_once
            [of "\<lparr>event_type = ''error'', delta = None,
                  error = Some \<lparr>message = Some ''Rate limit reached''\<rparr>\<rparr>"
                "live_session\<lparr>state := Speaking\<rparr>", OF _ cb]
          error_event_idle_and_callback_once
            [of "\<lparr>event_type = ''error'', delta = None, error = None\<rparr>"
                "live_session\<lparr>state := Thinking\<rparr>", OF _ cb]
    by (simp add: none)
qed

text \<open>The callback is optional: a hook created without it only changes its state.\<close>

lemma error_event_without_callback:
  assumes "event_type e = ''error''" and "\<not> onError h"
  shows "handleServerEvent e h = h\<lparr>state := Idle\<rparr>"
  using assms by (simp add: handleServerEvent_def call_onError_def)

text \<open>
  C3. A \<open>response.created\<close> event resets the transcript to the empty string, whatever it
  held, and sets the state to \<open>thinking\<close>; nothing else changes.
\<close>

theorem response_created_resets_transcript:
  assumes "event_type e = ''response.created''"
  shows "transcript (handleServerEvent e h) = []
       \<and> state (handleServerEvent e h) = Thinking
       \<and> handleServerEvent e h = h\<lparr>state := Thinking, transcript := []\<rparr>"
  using assms by (simp add: handleServerEvent_def)

theorem response_created_resets_transcript_witness:
  "transcript live_session = ''Earlier answer''
   \<and> transcript (handleServerEvent
        \<lparr>event_type = ''response.created'', delta = None, error = None\<rparr> live_session) = []
   \<and> state (handleServerEvent
        \<lparr>event_type = ''response.created'', delta = None, error = None\<rparr> live_session)
       = Thinking"
  using response_created_resets_transcript
          [of "\<lparr>event_type = ''response.created'', delta = None, error = None\<rparr>" live_session]
  by (simp add: live_session_def)

text \<open>
  C4. A send operation invoked while the channel is absent or not open returns the
  configuration as it was: no frame is enqueued, the state is unchanged, and the error
  callback is not invoked.
\<close>

theorem send_without_open_channel_is_noop:
  assumes "dcRef h = None \<or> (\<exists>dc. dcRef h = Some dc \<and> readyState dc \<noteq> RS_open)"
  shows "sendText text h = h
       \<and> sendImage base64Data mimeType h = h
       \<and> sendTextWithImage text base64Data mimeType h = h"
  using assms
  by (auto simp add: sendText_def sendImage_def sendTextWithImage_def)

theorem send_without_open_channel_is_noop_witness:
  "sendText ''2+2'' initial_hook = initial_hook
   \<and> sendImage ''AAAA'' ''image/png'' initial_hook = initial_hook
   \<and> sendTextWithImage ''2+2'' ''AAAA'' ''image/png'' initial_hook = initial_hook
   \<and> sendText ''2+2'' (live_session\<lparr>dcRef := Some \<lparr>readyState = RS_closing, sent = []\<rparr>\<rparr>)
       = live_session\<lparr>dcRef := Some \<lparr>readyState = RS_closing, sent = []\<rparr>\<rparr>
   \<and> sendImage ''AAAA'' ''image/png''
         (live_session\<lparr>dcRef := Some \<lparr>readyState = RS_connecting, sent = []\<rparr>\<rparr>)
       = live_session\<lparr>dcRef := Some \<lparr>readyState = RS_connecting, sent = []\<rparr>\<rparr>
   \<and> sendTextWithImage ''2+2'' ''AAAA'' ''image/png''
         (live_session\<lparr>dcRef := Some \<lparr>readyState = RS_closed, sent = []\<rparr>\<rparr>)
       = live_session\<lparr>dcRef := Some \<lparr>readyState = RS_closed, sent = []\<rparr>\<rparr>"
proof -
  have absent: "dcRef initial_hook = None
                \<or> (\<exists>dc. dcRef initial_hook = Some dc \<and> readyState dc \<noteq> RS_open)"
    by (simp add: initial_hook_def)
  have shut: "r \<noteq> RS_open \<Longrightarrow>
              dcRef (live_session\<lparr>dcRef := Some \<lparr>readyState = r, sent = []\<rparr>\<rparr>) = None
              \<or> (\<exists>dc. dcRef (live_session\<lparr>dcRef := Some \<lparr>readyState = r, sent = []\<rparr>\<rparr>) = Some dc
                       \<and> readyState dc \<noteq> RS_open)" for r
    by simp
  show ?thesis
    using send_without_open_channel_is_noop [OF absent]
          send_without_open_channel_is_noop [OF shut [of RS_closing]]
          send_without_open_channel_is_noop [OF shut [of RS_connecting]]
          send_without_open_channel_is_noop [OF shut [of RS_closed]]
    by simp
qed

text \<open>
  C5. Disconnect is idempotent. After one call both handles are released, so a second
  call (made directly, or by the \<open>close\<close> event that the first call's \<open>dc.close()\<close>
  raises) issues no further \<open>close\<close>, changes nothing, and the state stays \<open>idle\<close>.
\<close>

theorem disconnect_idempotent:
  "disconnect (disconnect h) = disconnect h
   \<and> on_close (disconnect h) = disconnect h
   \<and> closes (disconnect (disconnect h)) = closes (disconnect h)
   \<and> state (disconnect (disconnect h)) = Idle
   \<and> dcRef (disconnect h) = None
   \<and> pcRef (disconnect h) = None
   \<and> \<not> isConnected (disconnect h)"
  by (simp add: disconnect_def on_close_def Let_def split: option.splits)

text \<open>
  C6. A \<open>response.output_audio_transcript.delta\<close> event appends its \<open>delta\<close> to the end of
  the transcript and changes nothing else (an event without \<open>delta\<close> appends the empty
  string); the fragments \<open>The\<close>, \<open> answer\<close>, \<open> is 4\<close> arriving in order on an empty
  transcript leave \<open>The answer is 4\<close>.
\<close>

theorem transcript_delta_appends:
  assumes "event_type e = ''response.output_audio_transcript.delta''"
  shows "(\<forall>d. delta e = Some d \<longrightarrow>
            handleServerEvent e h = h\<lparr>transcript := transcript h @ d\<rparr>)
       \<and> (delta e = None \<longrightarrow> handleServerEvent e h = h)
       \<and> state (handleServerEvent e h) = state h
       \<and> (transcript h = [] \<longrightarrow>
            transcript
              (handleServerEvent (e\<lparr>delta := Some '' is 4''\<rparr>)
                (handleServerEvent (e\<lparr>delta := Some '' answer''\<rparr>)
                  (handleServerEvent (e\<lparr>delta := Some ''The''\<rparr>) h)))
            = ''The answer is 4'')"
  using assms by (simp add: handleServerEvent_def)

theorem transcript_delta_appends_witness:
  "transcript
     (handleServerEvent
        \<lparr>event_type = ''response.output_audio_transcript.delta'', delta = Some '' is 4'',
         error = None\<rparr>
        (handleServerEvent
           \<lparr>event_type = ''response.output_audio_transcript.delta'', delta = Some '' answer'',
            error = None\<rparr>
           (handleServerEvent
              \<lparr>event_type = ''response.output_audio_transcript.delta'', delta = Some ''The'',
               error = None\<rparr>
              (live_session\<lparr>transcript := []\<rparr>))))
   = ''The answer is 4''
   \<and> handleServerEvent
        \<lparr>event_type = ''response.output_audio_transcript.delta'', delta = Some ''The'',
         error = None\<rparr> live_session
     = live_session\<lparr>transcript := ''Earlier answerThe''\<rparr>
   \<and> handleServerEvent
        \<lparr>event_type = ''response.output_audio_transcript.delta'', delta = None,
         error = None\<rparr> live_session
     = live_session"
proof -
  let ?ev = "\<lambda>d. \<lparr>event_type = ''response.output_audio_transcript.delta'', delta = d,
                    error = None\<rparr>"
  have ty: "event_type (?ev d) = ''response.output_audio_transcript.delta''" for d
    by simp
  note scenario = transcript_delta_appends
    [OF ty, of "Some ''The''" "live_session\<lparr>transcript := []\<rparr>",
     THEN conjunct2, THEN conjunct2, THEN conjunct2]
  note append = transcript_delta_appends
    [OF ty, of "Some ''The''" live_session, THEN conjunct1]
  note absent = transcript_delta_appends
    [OF ty, of None live_session, THEN conjunct2, THEN conjunct1]
  have a: "transcript (handleServerEvent (?ev (Some '' is 4''))
             (handleServerEvent (?ev (Some '' answer''))
               (handleServerEvent (?ev (Some ''The'')) (live_session\<lparr>transcript := []\<rparr>))))
           = ''The answer is 4''"
    using scenario by simp
  have b: "handleServerEvent (?ev (Some ''The'')) live_session
           = live_session\<lparr>transcript := ''Earlier answerThe''\<rparr>"
    using append by (simp add: live_session_def)
  have c: "handleServerEvent (?ev None) live_session = live_session"
    using absent by simp
  show ?thesis
    using a b c by blast
qed

text \<open>
  C10. An \<open>error\<close> event does not tear the session down: the peer connection, the channel
  and the audio element stay as they were, the connected flag and the transcript are
  unchanged, nothing is closed; only the state and the record of callback invocations
  can differ. Nor does any other event, the channel's \<open>open\<close> event or a send operation
  release a handle, change the channel's \<open>readyState\<close>, close anything or clear the
  connected flag: that is left to \<open>disconnect\<close>, which the channel's \<open>close\<close> event calls.
\<close>

theorem error_event_keeps_session:
  "(event_type e = ''error'' \<longrightarrow>
      pcRef (handleServerEvent e h) = pcRef h
      \<and> dcRef (handleServerEvent e h) = dcRef h
      \<and> audioRef (handleServerEvent e h) = audioRef h
      \<and> isConnected (handleServerEvent e h) = isConnected h
      \<and> transcript (handleServerEvent e h) = transcript h
      \<and> closes (handleServerEvent e h) = closes h
      \<and> handleServerEvent e h =
          h\<lparr>state := Idle, onError_calls := onError_calls (handleServerEvent e h)\<rparr>
      \<and> length (onError_calls (handleServerEvent e h)) \<le> Suc (length (onError_calls h)))
   \<and> (\<forall>h' \<in> {on_message parsed h, on_open h, sendText text h,
                sendImage base64Data mimeType h, sendTextWithImage text base64Data mimeType h}.
        pcRef h' = pcRef h
        \<and> map_option readyState (dcRef h') = map_option readyState (dcRef h)
        \<and> closes h' = closes h
        \<and> (isConnected h \<longrightarrow> isConnected h'))"
  by (auto simp add: handleServerEvent_def call_onError_def on_message_def on_open_def
        sendText_def sendImage_def sendTextWithImage_def dc_send_def Let_def
        split: option.splits)

theorem error_event_keeps_session_witness:
  "handleServerEvent
     \<lparr>event_type = ''error'', delta = None,
      error = Some \<lparr>message = Some ''Rate limit reached''\<rparr>\<rparr> live_session
   = live_session\<lparr>state := Idle, onError_calls := [''Rate limit reached'']\<rparr>
   \<and> isConnected (handleServerEvent
        \<lparr>event_type = ''error'', delta = None,
         error = Some \<lparr>message = Some ''Rate limit reached''\<rparr>\<rparr> live_session)
   \<and> dcRef (handleServerEvent
        \<lparr>event_type = ''error'', delta = None,
         error = Some \<lparr>message = Some ''Rate limit reached''\<rparr>\<rparr> live_session)
       = Some open_channel
   \<and> pcRef (sendText ''2+2'' live_session) = Some 0
   \<and> isConnected (sendText ''2+2'' live_session)
   \<and> closes (sendText ''2+2'' live_session) = []"
proof -
  let ?e = "\<lparr>event_type = ''error'', delta = None,
             error = Some \<lparr>message = Some ''Rate limit reached''\<rparr>\<rparr>"
  have calls: "onError_calls (handleServerEvent ?e live_session) = [''Rate limit reached'']"
    by (simp add: handleServerEvent_def call_onError_def error_message_def live_session_def)
  have fields: "isConnected live_session" "dcRef live_session = Some open_channel"
    "pcRef live_session = Some 0" "closes live_session = []"
    by (simp_all add: live_session_def)
  have ty: "event_type ?e = ''error''"
    by simp
  note kept = error_event_keeps_session
    [of ?e live_session, THEN conjunct1, rule_format, OF ty]
  note others = error_event_keeps_session
    [of _ live_session _ "''2+2''", THEN conjunct2, rule_format, of "sendText ''2+2'' live_session"]
  have a: "handleServerEvent ?e live_session
           = live_session\<lparr>state := Idle, onError_calls := [''Rate limit reached'']\<rparr>"
    using kept calls by simp
  have b: "isConnected (handleServerEvent ?e live_session)"
    using kept fields by simp
  have c: "dcRef (handleServerEvent ?e live_session) = Some open_channel"
    using kept fields by simp
  have d: "pcRef (sendText ''2+2'' live_session) = Some 0
           \<and> isConnected (sendText ''2+2'' live_session)
           \<and> closes (sendText ''2+2'' live_session) = []"
    using others fields by simp
  show ?thesis
    using a b c d by blast
qed

section \<open>Properties of the token minter\<close>


text \<open>
  The rest of the claim holds. With the key set and an upstream response that is ok and
  carries a non-empty \<open>value\<close>, the route answers 200 with that value. Without the key it
  answers 500 with a configuration message. On a non-ok upstream response whose status a
  response with a body can carry, it answers with that status, which is not 2xx, and the
  upstream body as details; on the other non-ok statuses it answers 500 without details.
  On an ok response without \<open>value\<close> it answers 500 with \<open>No token in response\<close>. The
  handler always answers, and every error payload comes with a non-2xx status.
\<close>

lemma token_minter_outcomes:
  "(k \<noteq> [] \<and> ok r \<and> body_json r = Json_object (Some v) \<and> v \<noteq> [] \<longrightarrow>
      POST (Some k) (Fetch_resolves r)
      = Some \<lparr>resp_status = 200, resp_payload = Value_payload v\<rparr>)
   \<and> POST None upstream =
        Some \<lparr>resp_status = 500,
              resp_payload = Error_payload ''OPENAI_API_KEY is not configured'' None\<rparr>
   \<and> (k \<noteq> [] \<and> \<not> ok r \<and> body_text r = Some err
       \<and> 200 \<le> status r \<and> status r \<le> 599 \<and> \<not> null_body_status (status r) \<longrightarrow>
        POST (Some k) (Fetch_resolves r) =
          Some \<lparr>resp_status = status r,
                resp_payload = Error_payload ''Failed to create token'' (Some err)\<rparr>
        \<and> \<not> (200 \<le> status r \<and> status r \<le> 299))
   \<and> (k \<noteq> [] \<and> \<not> ok r
       \<and> (status r < 200 \<or> 599 < status r \<or> null_body_status (status r)) \<longrightarrow>
        POST (Some k) (Fetch_resolves r) =
          Some \<lparr>resp_status = 500,
                resp_payload = Error_payload ''Failed to create token'' None\<rparr>)
   \<and> (k \<noteq> [] \<and> ok r \<and> body_json r = Json_object None \<longrightarrow>
        POST (Some k) (Fetch_resolves r) =
          Some \<lparr>resp_status = 500,
                resp_payload = Error_payload ''No token in response'' None\<rparr>)
   \<and> (\<exists>answer. POST apiKey upstream = Some answer
         \<and> (case resp_payload answer of
               Value_payload t \<Rightarrow> resp_status answer = 200 \<and> t \<noteq> []
             | Error_payload m d \<Rightarrow>
                 \<not> (200 \<le> resp_status answer \<and> resp_status answer \<le> 299)))"
  by (auto simp add: POST_def try_block_def NextResponse_json_def null_body_status_def
        falsy_def ok_def
        split: option.splits fetch_outcome.splits json_outcome.splits)

lemma token_minter_outcomes_examples:
  "POST (Some ''sk-live'')
        (Fetch_resolves \<lparr>status = 200, body_text = Some ''{value:ek_123}'',
                         body_json = Json_object (Some ''ek_123'')\<rparr>)
     = Some \<lparr>resp_status = 200, resp_payload = Value_payload ''ek_123''\<rparr>
   \<and> POST None Fetch_rejects
     = Some \<lparr>resp_status = 500,
             resp_payload = Error_payload ''OPENAI_API_KEY is not configured'' None\<rparr>
   \<and> POST (Some ''sk-live'')
        (Fetch_resolves \<lparr>status = 401, body_text = Some ''invalid key'', body_json = Json_throws\<rparr>)
     = Some \<lparr>resp_status = 401,
             resp_payload = Error_payload ''Failed to create token'' (Some ''invalid key'')\<rparr>
   \<and> POST (Some ''sk-live'')
        (Fetch_resolves \<lparr>status = 200, body_text = Some ''{}'', body_json = Json_object None\<rparr>)
     = Some \<lparr>resp_status = 500, resp_payload = Error_payload ''No token in response'' None\<rparr>
   \<and> POST (Some ''sk-live'') Fetch_rejects
     = Some \<lparr>resp_status = 500, resp_payload = Error_payload ''Failed to create token'' None\<rparr>"
  by (simp add: POST_def try_block_def NextResponse_json_def null_body_status_def falsy_def
        ok_def)

section \<open>Properties of the notation converter\<close>

subsection \<open>The delimiter stripper\<close>

text \<open>
  C8. On an input whose trimmed form is not wrapped in one of the three delimiter pairs
  and is not the single character \<open>$\<close>, \<open>stripLatexDelimiters\<close> returns the trimmed
  input; in particular an input without white space around it that starts with neither
  \<open>$\<close> nor a backslash comes back unchanged. When the trimmed input is a pair around a
  body, it returns the trimmed body, one layer of that pair removed.
\<close>

theorem stripLatexDelimiters_one_layer:
  "(\<not> wrapped_in ''$'' ''$'' (trim s)
      \<and> \<not> wrapped_in [backslash, CHR ''(''] [backslash, CHR '')''] (trim s)
      \<and> \<not> wrapped_in [backslash, CHR ''[''] [backslash, CHR '']''] (trim s)
      \<and> trim s \<noteq> ''$''
      \<longrightarrow> stripLatexDelimiters s = trim s)
   \<and> (trim s = ''$'' @ body @ ''$'' \<longrightarrow> stripLatexDelimiters s = trim body)
   \<and> (trim s = [backslash, CHR ''(''] @ body @ [backslash, CHR '')'']
      \<longrightarrow> stripLatexDelimiters s = trim body)
   \<and> (trim s = [backslash, CHR ''[''] @ body @ [backslash, CHR '']'']
      \<longrightarrow> stripLatexDelimiters s = trim body)
   \<and> (trim s = s \<and> \<not> prefix ''$'' s \<and> \<not> prefix [backslash] s
      \<longrightarrow> stripLatexDelimiters s = s)"
proof (intro conjI impI)
  assume a: "\<not> wrapped_in ''$'' ''$'' (trim s)
      \<and> \<not> wrapped_in [backslash, CHR ''(''] [backslash, CHR '')''] (trim s)
      \<and> \<not> wrapped_in [backslash, CHR ''[''] [backslash, CHR '']''] (trim s)
      \<and> trim s \<noteq> ''$''"
  have dollar: "\<not> (prefix ''$'' (trim s) \<and> suffix ''$'' (trim s))"
  proof
    assume ps: "prefix ''$'' (trim s) \<and> suffix ''$'' (trim s)"
    then obtain r where r: "trim s = CHR ''$'' # r"
      by (auto simp add: prefix_def)
    with a have "r \<noteq> []" by auto
    with r have "2 \<le> length (trim s)" by (cases r) auto
    with ps a show False by (simp add: wrapped_in_def)
  qed
  have two: "prefix [x, y] t \<and> suffix [x', y'] t \<and> y \<noteq> x' \<and> y \<noteq> y' \<longrightarrow> 4 \<le> length t"
    for x y x' y' :: char and t
  proof
    assume h: "prefix [x, y] t \<and> suffix [x', y'] t \<and> y \<noteq> x' \<and> y \<noteq> y'"
    then obtain r where r: "t = x # y # r" by (auto simp add: prefix_def)
    from h obtain l where l: "t = l @ [x', y']" by (auto simp add: suffix_def)
    from r l h have "r \<noteq> []" by (cases l) auto
    moreover from r l h have "\<not> (\<exists>z. r = [z])"
      by (cases l; cases "tl l") auto
    ultimately have "2 \<le> length r" 
      by (cases r; cases "tl r") auto
    with r show "4 \<le> length t" by simp
  qed
  have paren: "\<not> (prefix [backslash, CHR ''(''] (trim s) \<and> suffix [backslash, CHR '')''] (trim s))"
    using a two [of backslash "CHR ''(''" "trim s" backslash "CHR '')''"]
    by (auto simp add: wrapped_in_def backslash_def)
  have bracket: "\<not> (prefix [backslash, CHR ''[''] (trim s) \<and> suffix [backslash, CHR '']''] (trim s))"
    using a two [of backslash "CHR ''[''" "trim s" backslash "CHR '']''"]
    by (auto simp add: wrapped_in_def backslash_def)
  show "stripLatexDelimiters s = trim s"
    using dollar paren bracket by (auto simp add: stripLatexDelimiters_def Let_def)
next
  assume t: "trim s = ''$'' @ body @ ''$''"
  have p: "prefix ''$'' (trim s)" and q: "suffix ''$'' (trim s)"
    by (simp_all add: t suffix_def)
  have sl: "slice (trim s) (Suc 0) (Suc 0) = body"
    by (simp add: t slice_def)
  show "stripLatexDelimiters s = trim body"
    by (simp add: stripLatexDelimiters_def Let_def p q sl)
next
  assume t: "trim s = [backslash, CHR ''(''] @ body @ [backslash, CHR '')'']"
  have n: "\<not> prefix ''$'' (trim s)"
    by (simp add: t backslash_def)
  have p: "prefix [backslash, CHR ''(''] (trim s)"
    and q: "suffix [backslash, CHR '')''] (trim s)"
    by (simp_all add: t suffix_def)
  have sl: "slice (trim s) 2 2 = body"
    by (simp add: t slice_def)
  show "stripLatexDelimiters s = trim body"
    by (simp add: stripLatexDelimiters_def Let_def n p q sl)
next
  assume t: "trim s = [backslash, CHR ''[''] @ body @ [backslash, CHR '']'']"
  have n: "\<not> prefix ''$'' (trim s)" "\<not> prefix [backslash, CHR ''(''] (trim s)"
    by (simp_all add: t backslash_def)
  have p: "prefix [backslash, CHR ''[''] (trim s)"
    and q: "suffix [backslash, CHR '']''] (trim s)"
    by (simp_all add: t suffix_def)
  have sl: "slice (trim s) 2 2 = body"
    by (simp add: t slice_def)
  show "stripLatexDelimiters s = trim body"
    by (simp add: stripLatexDelimiters_def Let_def n p q sl)
next
  assume "trim s = s \<and> \<not> prefix ''$'' s \<and> \<not> prefix [backslash] s"
  then show "stripLatexDelimiters s = s"
    by (auto simp add: stripLatexDelimiters_def Let_def prefix_def)
qed

theorem stripLatexDelimiters_one_layer_witness:
  "stripLatexDelimiters ''x^{2}'' = ''x^{2}''
   \<and> stripLatexDelimiters ''$$x$$'' = ''$x$''
   \<and> stripLatexDelimiters ('' '' @ [backslash, CHR ''(''] @ '' a '' @ [backslash, CHR '')''])
       = ''a''
   \<and> stripLatexDelimiters ([backslash, CHR ''[''] @ ''b'' @ [backslash, CHR '']'']) = ''b''"
proof -
  have a: "stripLatexDelimiters ''x^{2}'' = ''x^{2}''"
  proof -
    have t: "trim ''x^{2}'' = ''x^{2}''"
      by code_simp
    have "\<not> wrapped_in ''$'' ''$'' (trim ''x^{2}'')
      \<and> \<not> wrapped_in [backslash, CHR ''(''] [backslash, CHR '')''] (trim ''x^{2}'')
      \<and> \<not> wrapped_in [backslash, CHR ''[''] [backslash, CHR '']''] (trim ''x^{2}'')
      \<and> trim ''x^{2}'' \<noteq> ''$''"
      by code_simp
    with stripLatexDelimiters_one_layer [of "''x^{2}''", THEN conjunct1] t
    show ?thesis by simp
  qed
  have b: "stripLatexDelimiters ''$$x$$'' = ''$x$''"
  proof -
    have "trim ''$$x$$'' = ''$'' @ ''$x$'' @ ''$''" and "trim ''$x$'' = ''$x$''"
      by code_simp+
    with stripLatexDelimiters_one_layer
           [of "''$$x$$''" "''$x$''", THEN conjunct2, THEN conjunct1]
    show ?thesis by simp
  qed
  have c: "stripLatexDelimiters ('' '' @ [backslash, CHR ''(''] @ '' a '' @ [backslash, CHR '')''])
           = ''a''"
  proof -
    have "trim ('' '' @ [backslash, CHR ''(''] @ '' a '' @ [backslash, CHR '')''])
          = [backslash, CHR ''(''] @ '' a '' @ [backslash, CHR '')'']"
      and "trim '' a '' = ''a''"
      by code_simp+
    with stripLatexDelimiters_one_layer
           [of "'' '' @ [backslash, CHR ''(''] @ '' a '' @ [backslash, CHR '')'']" "'' a ''",
            THEN conjunct2, THEN conjunct2, THEN conjunct1]
    show ?thesis by simp
  qed
  have d: "stripLatexDelimiters ([backslash, CHR ''[''] @ ''b'' @ [backslash, CHR '']'']) = ''b''"
  proof -
    have "trim ([backslash, CHR ''[''] @ ''b'' @ [backslash, CHR '']''])
          = [backslash, CHR ''[''] @ ''b'' @ [backslash, CHR '']'']"
      and "trim ''b'' = ''b''"
      by code_simp+
    with stripLatexDelimiters_one_layer
           [of "[backslash, CHR ''[''] @ ''b'' @ [backslash, CHR '']'']" "''b''",
            THEN conjunct2, THEN conjunct2, THEN conjunct2, THEN conjunct1]
    show ?thesis by simp
  qed
  show ?thesis
    using a b c d by blast
qed

text \<open>
  As the claim is worded, every input without a delimiter pair comes back unchanged. The
  function trims first: the input \<open> x\<close> has no delimiter pair and comes back as \<open>x\<close>.
\<close>

theorem stripLatexDelimiters_trims_counterexample:
  "\<not> wrapped_in ''$'' ''$'' '' x''
   \<and> \<not> wrapped_in [backslash, CHR ''(''] [backslash, CHR '')''] '' x''
   \<and> \<not> wrapped_in [backslash, CHR ''[''] [backslash, CHR '']''] '' x''
   \<and> stripLatexDelimiters '' x'' = ''x''
   \<and> stripLatexDelimiters '' x'' \<noteq> '' x''"
  by (simp add: wrapped_in_def stripLatexDelimiters_def trim_def is_space_def backslash_def
        suffix_def)

text \<open>
  The single character \<open>$\<close> is set apart above because it is not a pair, yet starts
  with \<open>$\<close> and ends with \<open>$\<close>: the first branch is taken and the result is empty.
\<close>

lemma stripLatexDelimiters_lone_dollar:
  "\<not> wrapped_in ''$'' ''$'' ''$'' \<and> trim ''$'' = ''$'' \<and> stripLatexDelimiters ''$'' = []"
  by (simp add: wrapped_in_def stripLatexDelimiters_def trim_def is_space_def slice_def)

subsection \<open>The global replace, one piece of the input at a time\<close>

lemma skip_drop: "replace_script sep n s = replace_script sep 0 (drop n s)"
  by (induction sep n s rule: replace_script.induct) simp_all

lemma drop_eq_Cons:
  assumes "drop n xs = c # r"
  shows "n < length xs" and "xs ! n = c"
proof -
  from assms show n: "n < length xs"
    by (cases "n < length xs") auto
  from Cons_nth_drop_Suc [OF n] assms show "xs ! n = c"
    by simp
qed

lemma try_base_none: "sep \<notin> set (take n (tl s)) \<Longrightarrow> try_base sep s n = None"
proof (induction n)
  case 0
  then show ?case by simp
next
  case (Suc n)
  have sub: "set (take n (tl s)) \<subseteq> set (take (Suc n) (tl s))"
    by (simp add: set_take_subset_set_take)
  with Suc have ih: "try_base sep s n = None"
    by auto
  show ?case
  proof (cases "drop (Suc n) s")
    case Nil
    with ih show ?thesis by simp
  next
    case (Cons c r)
    then have d: "drop n (tl s) = c # r"
      by (simp add: drop_Suc)
    from drop_eq_Cons [OF d] have "c \<in> set (take (Suc n) (tl s))"
      by (auto simp add: take_Suc_conv_app_nth)
    with Suc.prems have "c \<noteq> sep"
      by auto
    with Cons ih show ?thesis by simp
  qed
qed

lemma try_base_down:
  "sep \<notin> set (take k (drop m (tl s))) \<Longrightarrow> try_base sep s (m + k) = try_base sep s m"
proof (induction k)
  case 0
  then show ?case by simp
next
  case (Suc k)
  have sub: "set (take k (drop m (tl s))) \<subseteq> set (take (Suc k) (drop m (tl s)))"
    by (simp add: set_take_subset_set_take)
  with Suc have ih: "try_base sep s (m + k) = try_base sep s m"
    by auto
  show ?case
  proof (cases "drop (Suc (m + k)) s")
    case Nil
    with ih show ?thesis by simp
  next
    case (Cons c r)
    then have d: "drop k (drop m (tl s)) = c # r"
      by (simp add: drop_Suc add.commute)
    from drop_eq_Cons [OF d] have "c \<in> set (take (Suc k) (drop m (tl s)))"
      by (auto simp add: take_Suc_conv_app_nth)
    with Suc.prems have "c \<noteq> sep"
      by auto
    with Cons ih show ?thesis by simp
  qed
qed


lemma dropWhile_hd: "xs \<noteq> [] \<Longrightarrow> \<not> P (hd xs) \<Longrightarrow> dropWhile P xs = xs"
  by (cases xs) auto

lemma alnum_chars:
  assumes "is_alnum c"
  shows "is_word c" and "c \<noteq> CHR ''^''" and "c \<noteq> CHR ''_''" and "\<not> is_space c"
    and "c \<noteq> CHR ''$''" and "c \<noteq> backslash"
  using assms
  by (auto simp add: is_alnum_def is_word_def is_letter_def is_digit_def is_space_def
        backslash_def)

lemma alnum_no_sep:
  "list_all is_alnum e \<Longrightarrow> CHR ''^'' \<notin> set e \<and> CHR ''_'' \<notin> set e"
  by (auto simp add: list_all_iff dest: alnum_chars(2,3))

lemma digit_alnum: "is_digit c \<Longrightarrow> is_alnum c"
  by (simp add: is_alnum_def)

lemma word_alnum: "c \<noteq> CHR ''_'' \<Longrightarrow> is_word c = is_alnum c"
  by (simp add: is_word_def is_alnum_def)

lemma fixed_chars:
  "\<not> is_word (CHR ''^'')" "is_word (CHR ''_'')" "\<not> is_word (CHR ''}'')"
  "\<not> is_space (CHR ''}'')" "\<not> is_space (CHR ''$'')"
  by (simp_all add: is_word_def is_letter_def is_digit_def is_space_def)

lemma takeWhile_stop:
  "list_all P xs \<Longrightarrow> rest = [] \<or> \<not> P (hd rest) \<Longrightarrow> takeWhile P (xs @ rest) = xs"
  by (cases rest) (auto simp add: list_all_iff)

lemma match_exponent_whole:
  assumes e: "alnum_run e" and w: "whole_exponent e"
    and r: "rest = [] \<or> \<not> is_word (hd rest)"
  shows "match_exponent (e @ rest) = Some e"
proof (cases "list_all is_digit e")
  case True
  from r have "rest = [] \<or> \<not> is_digit (hd rest)"
    using alnum_chars(1) digit_alnum by blast
  with True have "takeWhile is_digit (e @ rest) = e"
    by (rule takeWhile_stop)
  with e show ?thesis
    by (simp add: match_exponent_def alnum_run_def)
next
  case False
  with w have "\<not> is_digit (hd e)"
    by (simp add: whole_exponent_def)
  with e have d: "takeWhile is_digit (e @ rest) = []"
    by (cases e) (auto simp add: alnum_run_def)
  from e have "list_all is_word e"
    by (auto simp add: alnum_run_def list_all_iff alnum_chars(1))
  then have "takeWhile is_word (e @ rest) = e"
    using r by (rule takeWhile_stop)
  with d e show ?thesis
    by (simp add: match_exponent_def alnum_run_def)
qed

lemma match_at_script:
  assumes b: "alnum_run b" and e: "alnum_run e" and w: "whole_exponent e"
    and sep: "sep = CHR ''^'' \<or> sep = CHR ''_''"
    and r: "rest = [] \<or> \<not> is_word (hd rest)"
  shows "match_at sep (b @ [sep] @ e @ rest) = Some (b, e)"
proof -
  let ?s = "b @ [sep] @ e @ rest"
  let ?k = "length (takeWhile is_word ([sep] @ e @ rest))"
  from b obtain c b' where bc: "b = c # b'"
    by (cases b) (auto simp add: alnum_run_def)
  from b have bw: "\<forall>x \<in> set b. is_word x"
    by (auto simp add: alnum_run_def list_all_iff alnum_chars(1))
  from e have ew: "list_all is_word e"
    by (auto simp add: alnum_run_def list_all_iff alnum_chars(1))
  from e sep have enc: "sep \<notin> set e"
    using alnum_no_sep [of e] by (auto simp add: alnum_run_def)
  have len: "length (takeWhile is_word ?s) = length b + ?k"
    using bw by simp
  have dr: "drop (length b) (tl ?s) = e @ rest"
    by (simp add: bc)
  have nosep: "sep \<notin> set (take ?k (e @ rest))"
  proof (cases "sep = CHR ''^''")
    case True
    then show ?thesis by (simp add: fixed_chars)
  next
    case False
    with sep have u: "sep = CHR ''_''" by simp
    from ew r have "takeWhile is_word (e @ rest) = e"
      by (rule takeWhile_stop)
    with u have k: "?k = Suc (length e)"
      by (simp add: fixed_chars)
    have "set (take (Suc (length e)) (e @ rest)) \<subseteq> set e \<union> set (take 1 rest)"
      by auto
    moreover from r u have "sep \<notin> set (take 1 rest)"
      by (cases rest) (auto simp add: fixed_chars)
    ultimately show ?thesis
      using enc k by auto
  qed
  have "try_base sep ?s (length b + ?k) = try_base sep ?s (length b)"
    by (rule try_base_down) (simp only: dr nosep not_False_eq_True)
  moreover have "try_base sep ?s (length b) = Some (b, e)"
    using match_exponent_whole [OF e w r] by (simp add: bc)
  ultimately show ?thesis
    by (simp only: match_at_def len)
qed

lemma replace_script_script:
  assumes b: "alnum_run b" and e: "alnum_run e" and w: "whole_exponent e"
    and sep: "sep = CHR ''^'' \<or> sep = CHR ''_''"
    and r: "rest = [] \<or> \<not> is_word (hd rest)"
  shows "replace_script sep 0 (b @ [sep] @ e @ rest) = braced b sep e @ replace_script sep 0 rest"
proof -
  from b obtain c b' where bc: "b = c # b'"
    by (cases b) (auto simp add: alnum_run_def)
  have m: "match_at sep (c # b' @ [sep] @ e @ rest) = Some (b, e)"
    using match_at_script [OF b e w sep r] by (simp add: bc)
  have "replace_script sep 0 (c # b' @ [sep] @ e @ rest)
        = b @ [sep] @ ''{'' @ e @ ''}''
          @ replace_script sep (length b + length e) (b' @ [sep] @ e @ rest)"
    by (simp only: replace_script.simps m option.case prod.case)
  also have "replace_script sep (length b + length e) (b' @ [sep] @ e @ rest)
             = replace_script sep 0 rest"
    by (subst skip_drop) (simp add: bc)
  finally show ?thesis
    by (simp add: bc braced_def)
qed


lemma takeWhile_length_le:
  assumes "rest = [] \<or> \<not> P (hd rest)"
  shows "length (takeWhile P (u @ rest)) \<le> length u"
proof (cases "list_all P u")
  case True
  then show ?thesis
    using assms by (simp add: takeWhile_stop)
next
  case False
  then obtain x where "x \<in> set u" and "\<not> P x"
    by (auto simp add: list_all_iff)
  then have "takeWhile P (u @ rest) = takeWhile P u"
    by (rule takeWhile_append1)
  then show ?thesis
    by (simp add: length_takeWhile_le)
qed

lemma takeWhile_length_less:
  assumes "u \<noteq> []" and "\<not> P (last u)"
  shows "length (takeWhile P (u @ rest)) < length u"
proof -
  from assms have l: "last u \<in> set u"
    by simp
  with assms have t: "takeWhile P (u @ rest) = takeWhile P u"
    by (intro takeWhile_append1 [of "last u"]) auto
  have "takeWhile P u \<noteq> u"
    using l assms(2) by (auto simp add: takeWhile_eq_all_conv)
  moreover have "length (takeWhile P u) \<le> length u"
    by (rule length_takeWhile_le)
  ultimately have "length (takeWhile P u) < length u"
    using takeWhile_eq_take [of P u] by (cases "length (takeWhile P u) = length u") auto
  with t show ?thesis by simp
qed

lemma match_at_plain:
  assumes u: "sep \<notin> set u"
    and bd: "rest = [] \<or> \<not> is_word (last (c # u)) \<or> (\<not> is_word (hd rest) \<and> hd rest \<noteq> sep)"
  shows "match_at sep (c # u @ rest) = None"
proof -
  let ?n = "length (takeWhile is_word ((c # u) @ rest))"
  have "sep \<notin> set (take ?n (u @ rest))"
  proof (cases "rest = []")
    case True
    with u show ?thesis
      by (auto dest: in_set_takeD)
  next
    case False
    show ?thesis
    proof (cases "\<not> is_word (last (c # u))")
      case True
      then have "?n < length (c # u)"
        by (intro takeWhile_length_less) auto
      then have "take ?n (u @ rest) = take ?n u"
        by simp
      with u show ?thesis
        by (auto dest: in_set_takeD)
    next
      case nw: False
      with bd \<open>rest \<noteq> []\<close> have h: "\<not> is_word (hd rest)" "hd rest \<noteq> sep"
        by auto
      then have "?n \<le> length (c # u)"
        by (intro takeWhile_length_le) simp
      then have "set (take ?n (u @ rest)) \<subseteq> set (take (Suc (length u)) (u @ rest))"
        by (intro set_take_subset_set_take) simp
      also have "\<dots> \<subseteq> set u \<union> {hd rest}"
        using \<open>rest \<noteq> []\<close> by (cases rest) auto
      finally show ?thesis
        using u h by auto
    qed
  qed
  then have "try_base sep (c # u @ rest) ?n = None"
    by (intro try_base_none) simp
  then show ?thesis
    by (simp add: match_at_def)
qed

lemma replace_script_plain:
  assumes "sep \<notin> set u"
    and "u = [] \<or> rest = [] \<or> \<not> is_word (last u) \<or> (\<not> is_word (hd rest) \<and> hd rest \<noteq> sep)"
  shows "replace_script sep 0 (u @ rest) = u @ replace_script sep 0 rest"
  using assms
proof (induction u)
  case Nil
  then show ?case by simp
next
  case (Cons c u)
  from Cons.prems have m: "match_at sep (c # u @ rest) = None"
    by (intro match_at_plain) auto
  from Cons.prems have "u = [] \<or> rest = [] \<or> \<not> is_word (last u)
                        \<or> (\<not> is_word (hd rest) \<and> hd rest \<noteq> sep)"
    by (cases u) auto
  with Cons have "replace_script sep 0 (u @ rest) = u @ replace_script sep 0 rest"
    by simp
  with m show ?case
    by simp
qed

lemma replace_script_no_sep: "sep \<notin> set s \<Longrightarrow> replace_script sep 0 s = s"
  using replace_script_plain [of sep s "[]"] by simp


lemma plain_no_sep: "plain u \<Longrightarrow> CHR ''^'' \<notin> set u \<and> CHR ''_'' \<notin> set u"
  by (auto simp add: plain_def list_all_iff)

lemma plain_mem: "plain u \<Longrightarrow> c \<in> set u \<Longrightarrow> c \<noteq> CHR ''^'' \<and> c \<noteq> CHR ''_''"
  by (auto simp add: plain_def list_all_iff)

lemma run_starts_after_word:
  assumes "plain u" and "run_starts_after u"
  shows "u = [] \<or> \<not> is_word (last u)"
proof (cases "u = []")
  case True
  then show ?thesis by simp
next
  case False
  then have "last u \<in> set u" by simp
  with assms(1) have "last u \<noteq> CHR ''_''"
    by (simp add: plain_mem)
  with assms(2) False show ?thesis
    by (simp add: run_starts_after_def word_alnum)
qed

lemma shorthand_hd:
  assumes "single_patterns ps tail" and "shorthand ps tail \<noteq> []"
  shows "hd (shorthand ps tail) \<noteq> CHR ''^'' \<and> hd (shorthand ps tail) \<noteq> CHR ''_''"
proof (cases ps)
  case Nil
  with assms have "plain tail" and "hd tail \<in> set tail"
    by auto
  with Nil show ?thesis
    by (simp add: plain_mem)
next
  case (Cons p ps')
  obtain u b sep e where p: "p = (u, b, sep, e)"
    by (cases p) auto
  show ?thesis
  proof (cases "u = []")
    case True
    from assms Cons p obtain c b' where "b = c # b'" and "is_alnum c"
      by (cases b) (auto simp add: alnum_run_def)
    with True Cons p show ?thesis
      by (auto dest: alnum_chars(2,3))
  next
    case False
    then have "hd u \<in> set u" by simp
    moreover from assms Cons p have "plain u" by simp
    ultimately have "hd u \<noteq> CHR ''^'' \<and> hd u \<noteq> CHR ''_''"
      by (simp add: plain_mem)
    with False Cons p show ?thesis by simp
  qed
qed

lemma shorthand_boundary:
  assumes "single_patterns ps tail" and "run_stops_before (shorthand ps tail)"
  shows "shorthand ps tail = []
         \<or> (\<not> is_word (hd (shorthand ps tail)) \<and> hd (shorthand ps tail) \<noteq> CHR ''^'')"
proof (cases "shorthand ps tail = []")
  case True
  then show ?thesis by simp
next
  case False
  with shorthand_hd [OF assms(1)] assms(2) show ?thesis
    by (simp add: run_stops_before_def word_alnum)
qed

lemma forms_hd:
  assumes "single_patterns ps tail"
  shows "(caret_form ps tail = [] \<longleftrightarrow> shorthand ps tail = [])
         \<and> hd (caret_form ps tail) = hd (shorthand ps tail)
         \<and> (braced_form ps tail = [] \<longleftrightarrow> shorthand ps tail = [])
         \<and> hd (braced_form ps tail) = hd (shorthand ps tail)"
proof (cases ps)
  case Nil
  then show ?thesis by simp
next
  case (Cons p ps')
  obtain u b sep e where p: "p = (u, b, sep, e)"
    by (cases p) auto
  from assms Cons p obtain c b' where "b = c # b'"
    by (cases b) (auto simp add: alnum_run_def)
  with Cons p show ?thesis
    by (cases u) (auto simp add: braced_def)
qed

lemma caret_pass:
  "single_patterns ps tail \<Longrightarrow> whole_exponents ps \<Longrightarrow>
   replace_script (CHR ''^'') 0 (shorthand ps tail) = caret_form ps tail"
proof (induction ps tail rule: shorthand.induct)
  case (1 tail)
  then show ?case
    using plain_no_sep [of tail] by (simp add: replace_script_no_sep)
next
  case (2 u b sep e ps tail)
  let ?R = "shorthand ps tail"
  from "2.prems" have sp: "single_patterns ps tail" and we: "whole_exponents ps"
    and u: "plain u" "run_starts_after u" and b: "alnum_run b" and e: "alnum_run e"
    and w: "whole_exponent e" and sep: "sep = CHR ''^'' \<or> sep = CHR ''_''"
    and stop: "run_stops_before ?R"
    by (simp_all add: whole_exponents_def)
  from "2.IH" sp we have ih: "replace_script (CHR ''^'') 0 ?R = caret_form ps tail"
    by simp
  note bnd = shorthand_boundary [OF sp stop]
  show ?case
  proof (cases "sep = CHR ''^''")
    case True
    have "replace_script (CHR ''^'') 0 (u @ (b @ [sep] @ e @ ?R))
          = u @ replace_script (CHR ''^'') 0 (b @ [sep] @ e @ ?R)"
      using plain_no_sep [OF u(1)] run_starts_after_word [OF u]
      by (intro replace_script_plain) auto
    also have "replace_script (CHR ''^'') 0 (b @ [sep] @ e @ ?R)
               = braced b sep e @ replace_script (CHR ''^'') 0 ?R"
      unfolding True using b e w bnd by (intro replace_script_script) auto
    finally show ?thesis
      using True ih by simp
  next
    case False
    with sep have us: "sep = CHR ''_''" by simp
    have "CHR ''^'' \<notin> set (u @ b @ [sep] @ e)"
      using plain_no_sep [OF u(1)] alnum_no_sep [of b] alnum_no_sep [of e] b e us
      by (auto simp add: alnum_run_def)
    then have "replace_script (CHR ''^'') 0 ((u @ b @ [sep] @ e) @ ?R)
               = (u @ b @ [sep] @ e) @ replace_script (CHR ''^'') 0 ?R"
      using bnd by (intro replace_script_plain) auto
    with us ih show ?thesis
      by simp
  qed
qed

lemma underscore_pass:
  "single_patterns ps tail \<Longrightarrow> whole_exponents ps \<Longrightarrow>
   replace_script (CHR ''_'') 0 (caret_form ps tail) = braced_form ps tail"
proof (induction ps tail rule: shorthand.induct)
  case (1 tail)
  then show ?case
    using plain_no_sep [of tail] by (simp add: replace_script_no_sep)
next
  case (2 u b sep e ps tail)
  let ?R = "caret_form ps tail"
  from "2.prems" have sp: "single_patterns ps tail" and we: "whole_exponents ps"
    and u: "plain u" "run_starts_after u" and b: "alnum_run b" and e: "alnum_run e"
    and w: "whole_exponent e" and sep: "sep = CHR ''^'' \<or> sep = CHR ''_''"
    and stop: "run_stops_before (shorthand ps tail)"
    by (simp_all add: whole_exponents_def)
  from "2.IH" sp we have ih: "replace_script (CHR ''_'') 0 ?R = braced_form ps tail"
    by simp
  from shorthand_boundary [OF sp stop] forms_hd [OF sp]
  have bnd: "?R = [] \<or> \<not> is_word (hd ?R)"
    by auto
  show ?case
  proof (cases "sep = CHR ''^''")
    case True
    have "CHR ''_'' \<notin> set (u @ braced b sep e)"
      using plain_no_sep [OF u(1)] alnum_no_sep [of b] alnum_no_sep [of e] b e True
      by (auto simp add: alnum_run_def braced_def)
    moreover have "\<not> is_word (last (u @ braced b sep e))"
      by (simp add: braced_def fixed_chars)
    ultimately have "replace_script (CHR ''_'') 0 ((u @ braced b sep e) @ ?R)
               = (u @ braced b sep e) @ replace_script (CHR ''_'') 0 ?R"
      by (intro replace_script_plain) auto
    with True ih show ?thesis
      by simp
  next
    case False
    with sep have us: "sep = CHR ''_''" by simp
    have "replace_script (CHR ''_'') 0 (u @ (b @ [sep] @ e @ ?R))
          = u @ replace_script (CHR ''_'') 0 (b @ [sep] @ e @ ?R)"
      using plain_no_sep [OF u(1)] run_starts_after_word [OF u]
      by (intro replace_script_plain) auto
    also have "replace_script (CHR ''_'') 0 (b @ [sep] @ e @ ?R)
               = braced b sep e @ replace_script (CHR ''_'') 0 ?R"
      unfolding us using b e w bnd by (intro replace_script_script) auto
    finally show ?thesis
      using us ih by simp
  qed
qed


lemma trim_no_space:
  assumes "s = [] \<or> (\<not> is_space (hd s) \<and> \<not> is_space (last s))"
  shows "trim s = s"
proof (cases "s = []")
  case True
  then show ?thesis by (simp add: trim_def)
next
  case False
  with assms have h: "\<not> is_space (hd s)" and l: "\<not> is_space (hd (rev s))"
    by (auto simp add: hd_rev)
  from False h have "dropWhile is_space s = s"
    by (rule dropWhile_hd)
  moreover from False l have "dropWhile is_space (rev s) = rev s"
    by (intro dropWhile_hd) auto
  ultimately show ?thesis
    by (simp add: trim_def)
qed

lemma forms_last_tail:
  "tail \<noteq> [] \<Longrightarrow>
   shorthand ps tail \<noteq> [] \<and> braced_form ps tail \<noteq> []
   \<and> last (shorthand ps tail) = last tail \<and> last (braced_form ps tail) = last tail"
  by (induction ps tail rule: shorthand.induct) (simp_all add: braced_def)

lemma braced_form_last:
  "ps \<noteq> [] \<Longrightarrow> braced_form ps [] \<noteq> [] \<and> last (braced_form ps []) = CHR ''}''"
proof (induction ps)
  case Nil
  then show ?case by simp
next
  case (Cons p ps)
  obtain u b sep e where p: "p = (u, b, sep, e)"
    by (cases p) auto
  show ?case
  proof (cases "ps = []")
    case True
    with p show ?thesis by (simp add: braced_def)
  next
    case False
    with Cons p show ?thesis by (simp add: braced_def)
  qed
qed

lemma braced_form_no_space:
  assumes sp: "single_patterns ps tail" and x: "shorthand_input (shorthand ps tail)"
  shows "braced_form ps tail \<noteq> [] \<and> \<not> is_space (hd (braced_form ps tail))
         \<and> \<not> is_space (last (braced_form ps tail))"
proof -
  from x have ne: "shorthand ps tail \<noteq> []" and h: "\<not> is_space (hd (shorthand ps tail))"
    and l: "\<not> is_space (last (shorthand ps tail))"
    by (simp_all add: shorthand_input_def)
  from forms_hd [OF sp] ne h have a: "braced_form ps tail \<noteq> []"
    and b: "\<not> is_space (hd (braced_form ps tail))"
    by auto
  have "\<not> is_space (last (braced_form ps tail))"
  proof (cases "tail = []")
    case True
    with ne have "ps \<noteq> []" by (cases ps) auto
    with True show ?thesis
      using braced_form_last [of ps] by (simp add: fixed_chars)
  next
    case False
    with l show ?thesis
      using forms_last_tail [of tail ps] by simp
  qed
  with a b show ?thesis by simp
qed

lemma convert_shorthand:
  assumes sp: "single_patterns ps tail" and we: "whole_exponents ps"
    and x: "shorthand_input (shorthand ps tail)"
  shows "convertToLaTeX (shorthand ps tail) = ''$'' @ braced_form ps tail @ ''$''"
proof -
  from x have t: "trim (shorthand ps tail) = shorthand ps tail"
    by (intro trim_no_space) (simp add: shorthand_input_def)
  from x have ne: "shorthand ps tail \<noteq> []"
    and nd: "\<not> prefix ''$'' (shorthand ps tail)"
      "\<not> prefix [backslash, CHR ''(''] (shorthand ps tail)"
      "\<not> prefix [backslash, CHR ''[''] (shorthand ps tail)"
    by (simp_all add: shorthand_input_def)
  show ?thesis
    by (simp add: convertToLaTeX_def Let_def t ne nd caret_pass [OF sp we]
          underscore_pass [OF sp we])
qed

lemma strip_dollars:
  assumes "body \<noteq> []" and "\<not> is_space (hd body)" and "\<not> is_space (last body)"
  shows "stripLatexDelimiters (''$'' @ body @ ''$'') = body"
proof -
  have t: "trim (''$'' @ body @ ''$'') = ''$'' @ body @ ''$''"
    by (intro trim_no_space) (simp add: fixed_chars)
  have p: "prefix ''$'' (''$'' @ body @ ''$'')" and q: "suffix ''$'' (''$'' @ body @ ''$'')"
    by (simp_all add: suffix_def)
  have sl: "slice (''$'' @ body @ ''$'') (Suc 0) (Suc 0) = body"
    by (simp add: slice_def)
  from assms have tb: "trim body = body"
    by (intro trim_no_space) simp
  show ?thesis
    unfolding stripLatexDelimiters_def Let_def t using p q sl tb by simp
qed

lemma round_trip_scripts:
  assumes "single_patterns ps tail" and "whole_exponents ps"
    and "shorthand_input (shorthand ps tail)"
  shows "convertToLaTeX (shorthand ps tail) = ''$'' @ braced_form ps tail @ ''$''
       \<and> stripLatexDelimiters (convertToLaTeX (shorthand ps tail)) = braced_form ps tail"
  using convert_shorthand [OF assms] braced_form_no_space [OF assms(1,3)]
  by (simp add: strip_dollars del: append.simps)

lemma one_script_input:
  assumes b: "alnum_run b" and e: "alnum_run e" and sep: "sep = CHR ''^'' \<or> sep = CHR ''_''"
  shows "single_patterns [([], b, sep, e)] [] \<and> shorthand_input (shorthand [([], b, sep, e)] [])"
proof -
  from b obtain c b' where bc: "b = c # b'" and c: "is_alnum c"
    by (cases b) (auto simp add: alnum_run_def)
  from e have "e \<noteq> []" and "is_alnum (last e)"
    by (auto simp add: alnum_run_def list_all_iff)
  then have l: "\<not> is_space (last (b @ [sep] @ e))"
    by (simp add: alnum_chars(4))
  have sp: "single_patterns [([], b, sep, e)] []"
    using b e sep by (simp add: plain_def run_starts_after_def run_stops_before_def)
  have "shorthand_input (b @ [sep] @ e)"
    unfolding shorthand_input_def using l alnum_chars(4,5,6) [OF c]
    by (simp add: bc)
  with sp show ?thesis by simp
qed

subsection \<open>Convert, then strip\<close>

text \<open>
  C7. On a shorthand input that contains only single patterns, each with an exponent or
  subscript that is all digits or does not start with a digit, \<open>convertToLaTeX\<close> braces
  every pattern and wraps the result in \<open>$\<close>, and \<open>stripLatexDelimiters\<close> removes exactly
  those two delimiters: the composition yields the braced form. In particular a lone
  pattern \<open>base^exp\<close> or \<open>base_sub\<close> yields \<open>base^{exp}\<close> or \<open>base_{sub}\<close>.
\<close>

theorem round_trip_braced_form:
  "(single_patterns ps tail \<and> whole_exponents ps \<and> shorthand_input (shorthand ps tail) \<longrightarrow>
      convertToLaTeX (shorthand ps tail) = ''$'' @ braced_form ps tail @ ''$''
      \<and> stripLatexDelimiters (convertToLaTeX (shorthand ps tail)) = braced_form ps tail)
   \<and> (alnum_run b \<and> alnum_run e \<and> whole_exponent e
       \<and> (sep = CHR ''^'' \<or> sep = CHR ''_'') \<longrightarrow>
      convertToLaTeX (b @ [sep] @ e) = ''$'' @ braced b sep e @ ''$''
      \<and> stripLatexDelimiters (convertToLaTeX (b @ [sep] @ e)) = braced b sep e)"
proof (intro conjI impI)
  assume a: "single_patterns ps tail \<and> whole_exponents ps
             \<and> shorthand_input (shorthand ps tail)"
  then show "convertToLaTeX (shorthand ps tail) = ''$'' @ braced_form ps tail @ ''$''"
    using round_trip_scripts [of ps tail] by blast
  from a show "stripLatexDelimiters (convertToLaTeX (shorthand ps tail)) = braced_form ps tail"
    using round_trip_scripts [of ps tail] by blast
next
  assume a: "alnum_run b \<and> alnum_run e \<and> whole_exponent e
             \<and> (sep = CHR ''^'' \<or> sep = CHR ''_'')"
  then have w: "whole_exponents [([], b, sep, e)]"
    by (simp add: whole_exponents_def)
  from a one_script_input [of b e sep]
  have i: "single_patterns [([], b, sep, e)] []"
    and j: "shorthand_input (shorthand [([], b, sep, e)] [])"
    by simp_all
  from round_trip_scripts [OF i w j, THEN conjunct1]
  show "convertToLaTeX (b @ [sep] @ e) = ''$'' @ braced b sep e @ ''$''"
    by simp
  from round_trip_scripts [OF i w j, THEN conjunct2]
  show "stripLatexDelimiters (convertToLaTeX (b @ [sep] @ e)) = braced b sep e"
    by simp
qed

theorem round_trip_braced_form_witness:
  "single_patterns [([], ''x'', CHR ''^'', ''2''), ('' + '', ''y'', CHR ''_'', ''n1'')] '' = 0''
   \<and> whole_exponents [([], ''x'', CHR ''^'', ''2''), ('' + '', ''y'', CHR ''_'', ''n1'')]
   \<and> shorthand_input ''x^2 + y_n1 = 0''
   \<and> convertToLaTeX ''x^2 + y_n1 = 0'' = ''$x^{2} + y_{n1} = 0$''
   \<and> stripLatexDelimiters (convertToLaTeX ''x^2 + y_n1 = 0'') = ''x^{2} + y_{n1} = 0''
   \<and> alnum_run ''x'' \<and> alnum_run ''2'' \<and> whole_exponent ''2''
   \<and> stripLatexDelimiters (convertToLaTeX ''x^2'') = ''x^{2}''"
proof -
  let ?ps = "[([], ''x'', CHR ''^'', ''2''), ('' + '', ''y'', CHR ''_'', ''n1'')]"
  have sp: "single_patterns ?ps '' = 0''"
    by code_simp
  have we: "whole_exponents ?ps"
    by code_simp
  have si: "shorthand_input (shorthand ?ps '' = 0'')"
    by code_simp
  have x: "alnum_run ''x''" and two: "alnum_run ''2''" and w: "whole_exponent ''2''"
    by code_simp+
  from sp we si
  have g: "single_patterns ?ps '' = 0'' \<and> whole_exponents ?ps
           \<and> shorthand_input (shorthand ?ps '' = 0'')"
    by simp
  note scripts = round_trip_braced_form [of ?ps "'' = 0''", THEN conjunct1, THEN mp, OF g]
  from x two w
  have g1: "alnum_run ''x'' \<and> alnum_run ''2'' \<and> whole_exponent ''2''
            \<and> (CHR ''^'' = CHR ''^'' \<or> CHR ''^'' = CHR ''_'')"
    by simp
  note single = round_trip_braced_form
    [of _ _ "''x''" "''2''" "CHR ''^''", THEN conjunct2, THEN mp, OF g1]
  have one: "stripLatexDelimiters (convertToLaTeX ''x^2'') = ''x^{2}''"
    using single [THEN conjunct2] by (simp add: braced_def)
  have conv: "convertToLaTeX ''x^2 + y_n1 = 0'' = ''$x^{2} + y_{n1} = 0$''"
    using scripts [THEN conjunct1] by (simp add: braced_def)
  have strip: "stripLatexDelimiters (convertToLaTeX ''x^2 + y_n1 = 0'') = ''x^{2} + y_{n1} = 0''"
    using scripts [THEN conjunct2] by (simp add: braced_def)
  from si have si': "shorthand_input ''x^2 + y_n1 = 0''"
    by simp
  show ?thesis
    using sp we si' conv strip x two w one by blast
qed

text \<open>
  Without the condition on the exponent the round trip does not yield the braced form:
  in \<open>x^2n\<close> the maximal run after the caret is \<open>2n\<close>, but \<open>(\d+|\w+)\<close> takes the digits
  alone and the result is \<open>x^{2}n\<close>.
\<close>

theorem round_trip_digit_prefix_counterexample:
  "single_patterns [([], ''x'', CHR ''^'', ''2n'')] []
   \<and> shorthand_input (shorthand [([], ''x'', CHR ''^'', ''2n'')] [])
   \<and> shorthand [([], ''x'', CHR ''^'', ''2n'')] [] = ''x^2n''
   \<and> braced_form [([], ''x'', CHR ''^'', ''2n'')] [] = ''x^{2n}''
   \<and> stripLatexDelimiters (convertToLaTeX ''x^2n'') = ''x^{2}n''
   \<and> stripLatexDelimiters (convertToLaTeX (shorthand [([], ''x'', CHR ''^'', ''2n'')] []))
       \<noteq> braced_form [([], ''x'', CHR ''^'', ''2n'')] []"
  by code_simp

end
